theory Spec2Isabelle
  imports Main "HOL-Library.Word" "HOL-Library.Sublist"
begin

section \<open>Text, bytes and standard output\<close>

text \<open>
  A Python \<open>str\<close> is a sequence of Unicode code points: \<open>len\<close> counts code points and
  a slice takes code points. A \<open>bytes\<close> object is a sequence of octets. Standard output is
  the sequence of the texts handed to \<open>print\<close>, one element per call (\<open>print\<close> ends each
  with a newline). Writing to standard output is taken to succeed.
\<close>

type_synonym ustr = "nat list"
type_synonym bytes = "8 word list"
type_synonym stdout = "ustr list"

definition lit :: "string \<Rightarrow> ustr" where
  "lit s = map of_char s"

definition apos :: ustr where
  "apos = [39]"

text \<open>The pattern \<^verbatim>\<open>'{x}'\<close> of a format string.\<close>

definition quoted :: "ustr \<Rightarrow> ustr" where
  "quoted x = apos @ x @ apos"

definition print :: "ustr \<Rightarrow> stdout \<Rightarrow> stdout" where
  "print s out = out @ [s]"

section \<open>Exceptions\<close>

text \<open>
  The exception classes the handlers of \<open>explore_epub\<close> tell apart, each carrying
  \<open>str(e)\<close>. Every one is an instance of \<open>Exception\<close>; \<open>OtherException\<close> stands for
  the remaining subclasses (\<open>IsADirectoryError\<close>, \<open>PermissionError\<close>, \<open>RuntimeError\<close>,
  \<open>NotImplementedError\<close>, \<open>zlib.error\<close>, ...).
\<close>

datatype exn =
    FileNotFoundError ustr
  | BadZipFile ustr
  | UnicodeDecodeError ustr
  | OtherException ustr

fun str_exn :: "exn \<Rightarrow> ustr" where
  "str_exn (FileNotFoundError m) = m"
| "str_exn (BadZipFile m) = m"
| "str_exn (UnicodeDecodeError m) = m"
| "str_exn (OtherException m) = m"

section \<open>\<open>bytes.decode('utf-8', errors=...)\<close>\<close>

text \<open>
  The UTF-8 decoder of the interpreter (CPython's \<open>utf8_decode\<close> and the loop around it):
  one step reads the sequence that starts at the current byte and either yields a code
  point and the number of bytes it took, or reports a malformed range with its reason and
  length. The error handler named by \<open>errors\<close> then decides: \<open>strict\<close> raises
  \<open>UnicodeDecodeError\<close>, \<open>ignore\<close> resumes after the range and writes nothing,
  \<open>replace\<close> resumes after the range and writes U+FFFD. The program calls it with
  \<open>errors='ignore'\<close>.
\<close>

datatype errors = Strict | Ignore | Replace

datatype utf8_step = Decoded nat nat | Malformed ustr nat

definition IS_CONTINUATION_BYTE :: "8 word \<Rightarrow> bool" where
  "IS_CONTINUATION_BYTE ch = (0x80 \<le> ch \<and> ch < 0xC0)"

definition ucs4 :: "8 word \<Rightarrow> 32 word" where
  "ucs4 ch = ucast ch"

definition invalid_start :: utf8_step where
  "invalid_start = Malformed (lit ''invalid start byte'') 1"

definition invalid_continuation :: "nat \<Rightarrow> utf8_step" where
  "invalid_continuation n = Malformed (lit ''invalid continuation byte'') n"

definition unexpected_end :: "nat \<Rightarrow> utf8_step" where
  "unexpected_end n = Malformed (lit ''unexpected end of data'') n"

definition utf8_decode2 :: "8 word \<Rightarrow> 8 word list \<Rightarrow> utf8_step" where
  "utf8_decode2 ch rest =
     (case rest of
        [] \<Rightarrow> unexpected_end 1
      | ch2 # _ \<Rightarrow>
          if \<not> IS_CONTINUATION_BYTE ch2 then invalid_continuation 1
          else Decoded (unat (push_bit 6 (ucs4 ch) + ucs4 ch2
                              - (push_bit 6 0xC0 + 0x80))) 2)"

definition utf8_decode3 :: "8 word \<Rightarrow> 8 word list \<Rightarrow> utf8_step" where
  "utf8_decode3 ch rest =
     (case rest of
        [] \<Rightarrow> unexpected_end 1
      | [ch2] \<Rightarrow>
          if \<not> IS_CONTINUATION_BYTE ch2 \<or> (if ch2 < 0xA0 then ch = 0xE0 else ch = 0xED)
          then invalid_continuation 1
          else unexpected_end 2
      | ch2 # ch3 # _ \<Rightarrow>
          if \<not> IS_CONTINUATION_BYTE ch2 then invalid_continuation 1
          else if ch = 0xE0 \<and> ch2 < 0xA0 then invalid_continuation 1
          else if ch \<noteq> 0xE0 \<and> ch = 0xED \<and> 0xA0 \<le> ch2 then invalid_continuation 1
          else if \<not> IS_CONTINUATION_BYTE ch3 then invalid_continuation 2
          else Decoded (unat (push_bit 12 (ucs4 ch) + push_bit 6 (ucs4 ch2) + ucs4 ch3
                              - (push_bit 12 0xE0 + push_bit 6 0x80 + 0x80))) 3)"

definition utf8_decode4 :: "8 word \<Rightarrow> 8 word list \<Rightarrow> utf8_step" where
  "utf8_decode4 ch rest =
     (case rest of
        [] \<Rightarrow> unexpected_end 1
      | [ch2] \<Rightarrow>
          if \<not> IS_CONTINUATION_BYTE ch2 \<or> (if ch2 < 0x90 then ch = 0xF0 else ch = 0xF4)
          then invalid_continuation 1
          else unexpected_end 2
      | [ch2, ch3] \<Rightarrow>
          if \<not> IS_CONTINUATION_BYTE ch2 \<or> (if ch2 < 0x90 then ch = 0xF0 else ch = 0xF4)
          then invalid_continuation 1
          else if \<not> IS_CONTINUATION_BYTE ch3 then invalid_continuation 2
          else unexpected_end 3
      | ch2 # ch3 # ch4 # _ \<Rightarrow>
          if \<not> IS_CONTINUATION_BYTE ch2 then invalid_continuation 1
          else if ch = 0xF0 \<and> ch2 < 0x90 then invalid_continuation 1
          else if ch \<noteq> 0xF0 \<and> ch = 0xF4 \<and> 0x90 \<le> ch2 then invalid_continuation 1
          else if \<not> IS_CONTINUATION_BYTE ch3 then invalid_continuation 2
          else if \<not> IS_CONTINUATION_BYTE ch4 then invalid_continuation 3
          else Decoded (unat (push_bit 18 (ucs4 ch) + push_bit 12 (ucs4 ch2)
                              + push_bit 6 (ucs4 ch3) + ucs4 ch4
                              - (push_bit 18 0xF0 + push_bit 12 0x80 + push_bit 6 0x80 + 0x80))) 4)"

definition utf8_decode :: "8 word \<Rightarrow> 8 word list \<Rightarrow> utf8_step" where
  "utf8_decode ch rest =
     (if ch < 0x80 then Decoded (unat (ucs4 ch)) 1
      else if ch < 0xC2 then invalid_start
      else if ch < 0xE0 then utf8_decode2 ch rest
      else if ch < 0xF0 then utf8_decode3 ch rest
      else if ch < 0xF5 then utf8_decode4 ch rest
      else invalid_start)"

text \<open>\<open>str(e)\<close> of the \<open>UnicodeDecodeError\<close> raised for a range of \<open>n\<close> bytes at \<open>start\<close>.\<close>

fun decimal :: "nat \<Rightarrow> ustr" where
  "decimal n = (if n < 10 then [48 + n] else decimal (n div 10) @ [48 + n mod 10])"

definition hex_digit :: "nat \<Rightarrow> nat" where
  "hex_digit d = (if d < 10 then 48 + d else 87 + d)"

definition hex02 :: "8 word \<Rightarrow> ustr" where
  "hex02 b = [hex_digit (unat b div 16), hex_digit (unat b mod 16)]"

definition decode_error_message :: "8 word \<Rightarrow> nat \<Rightarrow> nat \<Rightarrow> ustr \<Rightarrow> ustr" where
  "decode_error_message ch start n reason =
     (if n = 1
      then quoted (lit ''utf-8'') @ lit '' codec can'' @ apos @ lit ''t decode byte 0x'' @ hex02 ch
           @ lit '' in position '' @ decimal start @ lit '': '' @ reason
      else quoted (lit ''utf-8'') @ lit '' codec can'' @ apos @ lit ''t decode bytes in position ''
           @ decimal start @ lit ''-'' @ decimal (start + n - 1) @ lit '': '' @ reason)"

function utf8_loop :: "errors \<Rightarrow> nat \<Rightarrow> bytes \<Rightarrow> exn + ustr" where
  "utf8_loop h pos [] = Inr []"
| "utf8_loop h pos (ch # rest) =
     (case utf8_decode ch rest of
        Decoded c n \<Rightarrow>
          (case utf8_loop h (pos + n) (drop n (ch # rest)) of
             Inl e \<Rightarrow> Inl e
           | Inr s \<Rightarrow> Inr (c # s))
      | Malformed reason n \<Rightarrow>
          (case h of
             Strict \<Rightarrow> Inl (UnicodeDecodeError (decode_error_message ch pos n reason))
           | Ignore \<Rightarrow> utf8_loop h (pos + n) (drop n (ch # rest))
           | Replace \<Rightarrow>
               (case utf8_loop h (pos + n) (drop n (ch # rest)) of
                  Inl e \<Rightarrow> Inl e
                | Inr s \<Rightarrow> Inr (0xFFFD # s))))"
  by pat_completeness auto
termination
proof (relation "measure (\<lambda>(h, pos, bs). length bs)")
  fix h :: errors and pos :: nat and ch :: "8 word" and rest :: bytes
  let ?shorter = "\<lambda>n. ((h, pos + n, drop n (ch # rest)), (h, pos, ch # rest))
                        \<in> measure (\<lambda>(h, pos, bs). length bs)"
  have consumed: "0 < n" if "utf8_decode ch rest = Decoded c n \<or> utf8_decode ch rest = Malformed r n"
    for c r n
    using that
    by (auto simp: utf8_decode_def utf8_decode2_def utf8_decode3_def utf8_decode4_def
                   invalid_start_def invalid_continuation_def unexpected_end_def
             split: if_splits list.splits)
  show "?shorter n" if "utf8_decode ch rest = Decoded c n" for c n
    using consumed [of c n] that by simp
  show "?shorter n" if "utf8_decode ch rest = Malformed r n" for r n
    using consumed [of _ n r] that by simp
  show "?shorter n" if "utf8_decode ch rest = Malformed r n" for r n
    using consumed [of _ n r] that by simp
qed simp

definition decode :: "bytes \<Rightarrow> errors \<Rightarrow> exn + ustr" where
  "decode raw h = utf8_loop h 0 raw"

section \<open>The archive library and the file system\<close>

text \<open>
  What the program sees of \<open>zipfile\<close> and \<open>os\<close>: \<open>zipfile.ZipFile(path, 'r')\<close> returns
  an archive or raises; an archive lists its entry names (\<open>namelist()\<close>), and
  \<open>open(name)\<close> returns a member file or raises; \<open>read()\<close> of a member file returns its
  bytes or raises; \<open>os.path.exists(path)\<close> answers whether the path exists.
\<close>

datatype zip_ext_file = ZipExtFile (read: "exn + bytes")

record zip_file =
  namelist :: "ustr list"
  open_member :: "ustr \<Rightarrow> exn + zip_ext_file"

record world =
  path_exists :: "ustr \<Rightarrow> bool"
  ZipFile :: "ustr \<Rightarrow> exn + zip_file"

section \<open>\<open>explore_epub\<close>\<close>

text \<open>
  The body of the inner \<open>try\<close>: open the member, read it, decode it with
  \<open>errors='ignore'\<close>, then print the name, the content or its first 100 characters, and
  the separator. An exception leaves the body at the statement that raised it.
\<close>

definition try_entry :: "zip_file \<Rightarrow> ustr \<Rightarrow> stdout \<Rightarrow> (exn + unit) \<times> stdout" where
  "try_entry epub_file filename out =
     (case open_member epub_file filename of
        Inl e \<Rightarrow> (Inl e, out)
      | Inr file \<Rightarrow>
          (case read file of
             Inl e \<Rightarrow> (Inl e, out)
           | Inr raw \<Rightarrow>
               (case decode raw Ignore of
                  Inl e \<Rightarrow> (Inl e, out)
                | Inr content \<Rightarrow>
                    (let out1 = print (lit ''Filename: '' @ filename) out;
                         out2 = (if length content > 100
                                 then print (lit ''Content (first 100 chars): ''
                                             @ take 100 content) out1
                                 else print (lit ''Content: '' @ content) out1);
                         out3 = print (concat (replicate 20 (lit ''-''))) out2
                     in (Inr (), out3)))))"

text \<open>The inner \<open>try\<close> with its handler \<open>except Exception as e\<close>.\<close>

definition loop_body :: "zip_file \<Rightarrow> ustr \<Rightarrow> stdout \<Rightarrow> (exn + unit) \<times> stdout" where
  "loop_body epub_file filename out =
     (case try_entry epub_file filename out of
        (Inl e, out') \<Rightarrow>
          (Inr (), print (lit ''Error reading '' @ quoted filename @ lit '': '' @ str_exn e) out')
      | (Inr u, out') \<Rightarrow> (Inr u, out'))"

text \<open>\<open>for filename in epub_file.namelist()\<close>: an exception of the body ends the loop.\<close>

fun for_filename :: "zip_file \<Rightarrow> ustr list \<Rightarrow> stdout \<Rightarrow> (exn + unit) \<times> stdout" where
  "for_filename epub_file [] out = (Inr (), out)"
| "for_filename epub_file (filename # names) out =
     (case loop_body epub_file filename out of
        (Inl e, out') \<Rightarrow> (Inl e, out')
      | (Inr u, out') \<Rightarrow> for_filename epub_file names out')"

text \<open>The handlers of the outer \<open>try\<close>, in the order of the source.\<close>

fun except_outer :: "ustr \<Rightarrow> exn \<Rightarrow> stdout \<Rightarrow> (exn + unit) \<times> stdout" where
  "except_outer epub_filepath (FileNotFoundError m) out =
     (Inr (), print (lit ''Error: File '' @ quoted epub_filepath @ lit '' not found.'') out)"
| "except_outer epub_filepath (BadZipFile m) out =
     (Inr (), print (lit ''Error: '' @ quoted epub_filepath
                     @ lit '' is not a valid ZIP or EPUB file.'') out)"
| "except_outer epub_filepath e out =
     (Inr (), print (lit ''An unexpected error occurred: '' @ str_exn e) out)"

definition explore_epub :: "world \<Rightarrow> ustr \<Rightarrow> stdout \<Rightarrow> (exn + unit) \<times> stdout" where
  "explore_epub w epub_filepath out =
     (case (case ZipFile w epub_filepath of
              Inl e \<Rightarrow> (Inl e, out)
            | Inr epub_file \<Rightarrow> for_filename epub_file (namelist epub_file) out) of
        (Inl e, out') \<Rightarrow> except_outer epub_filepath e out'
      | (Inr u, out') \<Rightarrow> (Inr u, out'))"

text \<open>The program run as a script.\<close>

definition main :: "world \<Rightarrow> stdout \<Rightarrow> (exn + unit) \<times> stdout" where
  "main w out =
     (let epub_file = lit ''file.epub''
      in if path_exists w epub_file then explore_epub w epub_file out
         else (Inr (), print (lit ''Error: '' @ quoted epub_file
                 @ lit '' does not exist. Please ensure this file is in the same directory or replace with the correct filepath.'') out))"

section \<open>Notions used to state the properties\<close>

text \<open>
  The input with every range removed that the decoder reports as malformed: what is left
  of the bytes when the undecodable sequences are dropped.
\<close>

function strip_undecodable :: "bytes \<Rightarrow> bytes" where
  "strip_undecodable [] = []"
| "strip_undecodable (ch # rest) =
     (case utf8_decode ch rest of
        Decoded c n \<Rightarrow> take n (ch # rest) @ strip_undecodable (drop n (ch # rest))
      | Malformed reason n \<Rightarrow> strip_undecodable (drop n (ch # rest)))"
  by pat_completeness auto
termination
proof (relation "measure length")
  fix ch :: "8 word" and rest :: bytes
  have consumed: "0 < n" if "utf8_decode ch rest = Decoded c n \<or> utf8_decode ch rest = Malformed r n"
    for c r n
    using that
    by (auto simp: utf8_decode_def utf8_decode2_def utf8_decode3_def utf8_decode4_def
                   invalid_start_def invalid_continuation_def unexpected_end_def
             split: if_splits list.splits)
  show "(drop n (ch # rest), ch # rest) \<in> measure length"
    if "utf8_decode ch rest = Decoded c n" for c n
    using consumed [of c n] that by simp
  show "(drop n (ch # rest), ch # rest) \<in> measure length"
    if "utf8_decode ch rest = Malformed r n" for r n
    using consumed [of _ n r] that by simp
qed simp

text \<open>
  The lines of the output that name an entry: a \<open>Filename\<close> line or an \<open>Error reading\<close>
  line; and what it means for such a line to name a given entry.
\<close>

definition entry_line :: "ustr \<Rightarrow> bool" where
  "entry_line line = (prefix (lit ''Filename: '') line \<or> prefix (lit ''Error reading '') line)"

definition names_entry :: "ustr \<Rightarrow> ustr \<Rightarrow> bool" where
  "names_entry filename line =
     (line = lit ''Filename: '' @ filename
      \<or> prefix (lit ''Error reading '' @ quoted filename @ lit '': '') line)"

text \<open>
  Two archives with the same contents: the same names in the same order, and the same
  outcome of opening each listed name. Two answers of \<open>zipfile.ZipFile\<close> are the same when
  both raise the same exception or both are archives with the same contents.
\<close>

definition same_contents :: "zip_file \<Rightarrow> zip_file \<Rightarrow> bool" where
  "same_contents a b =
     (namelist a = namelist b
      \<and> (\<forall>name\<in>set (namelist a). open_member a name = open_member b name))"

fun same_answer :: "exn + zip_file \<Rightarrow> exn + zip_file \<Rightarrow> bool" where
  "same_answer (Inl e) (Inl e') = (e = e')"
| "same_answer (Inr a) (Inr b) = same_contents a b"
| "same_answer _ _ = False"

section \<open>Example archives\<close>

text \<open>
  The archive of the specification's example (\<open>a.txt\<close> holds \<open>hi\<close>, \<open>b.html\<close> holds 150
  times \<open>x\<close>), an archive whose second entry fails its CRC check, an archive whose only
  entry holds the bytes \<open>61 FF 62\<close>, and a file system that holds them.
\<close>

definition example_archive :: zip_file where
  "example_archive =
     \<lparr> namelist = [lit ''a.txt'', lit ''b.html''],
       open_member = (\<lambda>name.
         if name = lit ''a.txt'' then Inr (ZipExtFile (Inr [0x68, 0x69]))
         else if name = lit ''b.html'' then Inr (ZipExtFile (Inr (replicate 150 0x78)))
         else Inl (OtherException (lit ''There is no item of that name in the archive''))) \<rparr>"

definition damaged_archive :: zip_file where
  "damaged_archive =
     \<lparr> namelist = [lit ''a.txt'', lit ''bad.bin'', lit ''c.txt''],
       open_member = (\<lambda>name.
         if name = lit ''a.txt'' then Inr (ZipExtFile (Inr [0x68, 0x69]))
         else if name = lit ''bad.bin'' then Inr (ZipExtFile (Inl (BadZipFile (lit ''Bad CRC-32''))))
         else if name = lit ''c.txt'' then Inr (ZipExtFile (Inr [0x6F, 0x6B]))
         else Inl (OtherException (lit ''There is no item of that name in the archive''))) \<rparr>"

definition latin1_archive :: zip_file where
  "latin1_archive =
     \<lparr> namelist = [lit ''a''],
       open_member = (\<lambda>name. Inr (ZipExtFile (Inr [0x61, 0xFF, 0x62]))) \<rparr>"

definition example_world :: world where
  "example_world =
     \<lparr> path_exists = (\<lambda>path. path = lit ''file.epub'' \<or> path = lit ''damaged.epub''
                               \<or> path = lit ''latin1.epub'' \<or> path = lit ''notes.txt''),
       ZipFile = (\<lambda>path.
         if path = lit ''file.epub'' then Inr example_archive
         else if path = lit ''damaged.epub'' then Inr damaged_archive
         else if path = lit ''latin1.epub'' then Inr latin1_archive
         else if path = lit ''notes.txt'' then Inl (BadZipFile (lit ''File is not a zip file''))
         else Inl (FileNotFoundError (lit ''[Errno 2] No such file or directory: ''
                                      @ quoted path))) \<rparr>"

section \<open>Facts about the decoder\<close>

text \<open>
  A step of the decoder consumes at least one byte and no more than there are.
\<close>

lemma utf8_decode_consumes:
  assumes "utf8_decode ch rest = Decoded c n"
  shows "0 < n" and "n \<le> Suc (length rest)"
  using assms
  by (auto simp: utf8_decode_def utf8_decode2_def utf8_decode3_def utf8_decode4_def
                 invalid_start_def invalid_continuation_def unexpected_end_def
           split: if_splits list.splits)

text \<open>
  A sequence that decodes to a code point decodes the same way whatever follows it.
\<close>

lemma utf8_decode2_prefix:
  "utf8_decode2 ch rest = Decoded c n
   \<Longrightarrow> utf8_decode2 ch (take (n - 1) rest @ ys) = Decoded c n"
  by (auto simp: utf8_decode2_def unexpected_end_def invalid_continuation_def
           split: list.splits if_splits)

lemma utf8_decode3_prefix:
  "utf8_decode3 ch rest = Decoded c n
   \<Longrightarrow> utf8_decode3 ch (take (n - 1) rest @ ys) = Decoded c n"
  by (auto simp: utf8_decode3_def unexpected_end_def invalid_continuation_def
           split: list.splits if_splits)

lemma utf8_decode4_prefix:
  "utf8_decode4 ch rest = Decoded c n
   \<Longrightarrow> utf8_decode4 ch (take (n - 1) rest @ ys) = Decoded c n"
  by (auto simp: utf8_decode4_def unexpected_end_def invalid_continuation_def
           split: list.splits if_splits)

lemma utf8_decode_prefix:
  "utf8_decode ch rest = Decoded c n
   \<Longrightarrow> utf8_decode ch (take (n - 1) rest @ ys) = Decoded c n"
  using utf8_decode2_prefix [of ch rest c n ys] utf8_decode3_prefix [of ch rest c n ys]
        utf8_decode4_prefix [of ch rest c n ys]
  by (auto simp: utf8_decode_def invalid_start_def split: if_splits)

text \<open>
  With \<open>errors='ignore'\<close> the decoder returns a text for every input.
\<close>

lemma utf8_loop_ignore_total: "h = Ignore \<Longrightarrow> \<exists>s. utf8_loop h pos bs = Inr s"
proof (induction h pos bs rule: utf8_loop.induct)
  case (1 h pos)
  then show ?case by simp
next
  case (2 h pos ch rest)
  then show ?case by (auto split: utf8_step.splits)
qed

lemma decode_ignore_total: "\<exists>content. decode raw Ignore = Inr content"
  unfolding decode_def by (rule utf8_loop_ignore_total) simp

text \<open>
  Decoding with \<open>errors='ignore'\<close> is strict decoding of the bytes that are left when
  the malformed ranges are removed, and removing them only deletes bytes.
\<close>

lemma take_drop_decoded:
  "0 < n \<Longrightarrow> n \<le> Suc (length rest)
   \<Longrightarrow> take n (ch # rest) @ ys = ch # (take (n - 1) rest @ ys)
       \<and> drop n (ch # (take (n - 1) rest @ ys)) = ys"
  by (cases n) simp_all

lemma utf8_loop_strict_strip:
  "h = Ignore \<Longrightarrow> utf8_loop Strict pos' (strip_undecodable bs) = utf8_loop h pos bs"
proof (induction h pos bs arbitrary: pos' rule: utf8_loop.induct)
  case (1 h pos)
  then show ?case by simp
next
  case (2 h pos ch rest)
  note h = \<open>h = Ignore\<close>
  show ?case
  proof (cases "utf8_decode ch rest")
    case (Decoded c n)
    then have n: "0 < n" "n \<le> Suc (length rest)"
      by (rule utf8_decode_consumes)+
    let ?ys = "strip_undecodable (drop n (ch # rest))"
    have step: "utf8_decode ch (take (n - 1) rest @ ?ys) = Decoded c n"
      using Decoded by (rule utf8_decode_prefix)
    have "utf8_loop Strict pos' (strip_undecodable (ch # rest))
          = utf8_loop Strict pos' (ch # (take (n - 1) rest @ ?ys))"
      using Decoded take_drop_decoded [OF n] by simp
    also have "\<dots> = (case utf8_loop Strict (pos' + n) ?ys of
                         Inl e \<Rightarrow> Inl e | Inr s \<Rightarrow> Inr (c # s))"
      using step take_drop_decoded [OF n, of ch ?ys] by simp
    also have "utf8_loop Strict (pos' + n) ?ys
               = utf8_loop h (pos + n) (drop n (ch # rest))"
      using "2.IH"(1) [OF Decoded h] by simp
    finally show ?thesis using Decoded by simp
  next
    case (Malformed reason n)
    then show ?thesis using "2.IH"(2) [OF Malformed h h] h by simp
  qed
qed

lemma decode_strict_strip: "decode (strip_undecodable raw) Strict = decode raw Ignore"
  unfolding decode_def by (rule utf8_loop_strict_strip) simp

lemma subseq_strip_undecodable: "subseq (strip_undecodable bs) bs"
proof (induction bs rule: strip_undecodable.induct)
  case 1
  then show ?case by simp
next
  case (2 ch rest)
  show ?case
  proof (cases "utf8_decode ch rest")
    case (Decoded c n)
    then have "subseq (strip_undecodable (drop n (ch # rest))) (drop n (ch # rest))"
      using "2.IH"(1) by simp
    then have "subseq (take n (ch # rest) @ strip_undecodable (drop n (ch # rest)))
                      (take n (ch # rest) @ drop n (ch # rest))"
      by (simp only: subseq_append')
    then show ?thesis using Decoded by simp
  next
    case (Malformed reason n)
    then have "subseq (strip_undecodable (drop n (ch # rest))) (drop n (ch # rest))"
      using "2.IH"(2) by simp
    then have "subseq (strip_undecodable (drop n (ch # rest)))
                      (take n (ch # rest) @ drop n (ch # rest))"
      by (rule subseq_drop_many)
    then show ?thesis using Malformed by simp
  qed
qed

text \<open>
  ASCII bytes decode to themselves.
\<close>

lemma unat_ucs4: "unat (ucs4 ch) = unat ch"
proof -
  have "unat ch < 2 ^ 8" using unsigned_less [of ch] by simp
  then have "unat ch < 2 ^ 32" by simp
  then show ?thesis
    by (simp add: ucs4_def unsigned_ucast_eq take_bit_nat_eq_self)
qed

lemma utf8_loop_ascii:
  "\<forall>b\<in>set bs. b < 0x80 \<Longrightarrow> utf8_loop h pos bs = Inr (map unat bs)"
  by (induction bs arbitrary: pos) (simp_all add: utf8_decode_def unat_ucs4)

lemma decode_ascii: "\<forall>b\<in>set raw. b < 0x80 \<Longrightarrow> decode raw h = Inr (map unat raw)"
  unfolding decode_def by (rule utf8_loop_ascii)

lemma decode_hi: "decode [0x68, 0x69] Ignore = Inr (lit ''hi'')"
  by (simp add: decode_ascii lit_def)

lemma decode_ok: "decode [0x6F, 0x6B] Ignore = Inr (lit ''ok'')"
  by (simp add: decode_ascii lit_def)

section \<open>Facts about the loop\<close>

lemma separator_line: "concat (replicate 20 (lit ''-'')) = lit ''--------------------''"
  by (simp add: lit_def eval_nat_numeral)

lemma dashes: "lit ''--------------------'' = replicate 20 (of_char CHR ''-'')"
  by (simp add: lit_def eval_nat_numeral)

lemma try_entry_open_fails:
  "open_member epub_file filename = Inl e \<Longrightarrow> try_entry epub_file filename out = (Inl e, out)"
  by (simp add: try_entry_def)

lemma try_entry_read_fails:
  "open_member epub_file filename = Inr zf \<Longrightarrow> read zf = Inl e
   \<Longrightarrow> try_entry epub_file filename out = (Inl e, out)"
  by (simp add: try_entry_def)

lemma try_entry_read_ok:
  "open_member epub_file filename = Inr zf \<Longrightarrow> read zf = Inr raw
   \<Longrightarrow> decode raw Ignore = Inr content
   \<Longrightarrow> try_entry epub_file filename out =
        (Inr (), out @ [lit ''Filename: '' @ filename,
                        if length content > 100
                        then lit ''Content (first 100 chars): '' @ take 100 content
                        else lit ''Content: '' @ content,
                        lit ''--------------------''])"
  by (simp add: try_entry_def print_def separator_line Let_def)

text \<open>
  The two ways through the body of the loop: the \<open>try\<close> raises and the handler prints
  one line, or the entry is read and its three lines are printed.
\<close>

lemma loop_body_cases:
  obtains (failed) e where "\<And>out. try_entry epub_file filename out = (Inl e, out)"
      and "\<And>out. loop_body epub_file filename out =
             (Inr (), out @ [lit ''Error reading '' @ quoted filename @ lit '': '' @ str_exn e])"
    | (shown) zf raw content where "open_member epub_file filename = Inr zf"
      and "read zf = Inr raw" and "decode raw Ignore = Inr content"
      and "\<And>out. loop_body epub_file filename out =
             (Inr (), out @ [lit ''Filename: '' @ filename,
                             if length content > 100
                             then lit ''Content (first 100 chars): '' @ take 100 content
                             else lit ''Content: '' @ content,
                             lit ''--------------------''])"
proof (cases "open_member epub_file filename")
  case (Inl e)
  then show ?thesis
    by (intro failed [of e]) (simp_all add: loop_body_def try_entry_open_fails print_def)
next
  case (Inr zf)
  show ?thesis
  proof (cases "read zf")
    case (Inl e)
    with Inr show ?thesis
      by (intro failed [of e]) (simp_all add: loop_body_def try_entry_read_fails print_def)
  next
    case raw: (Inr raw)
    obtain content where "decode raw Ignore = Inr content"
      using decode_ignore_total by blast
    with Inr raw show ?thesis
      by (intro shown [of zf raw content]) (simp_all add: loop_body_def try_entry_read_ok)
  qed
qed

lemma loop_body_appends:
  "loop_body epub_file filename out = (Inr (), out @ snd (loop_body epub_file filename []))"
  by (cases epub_file filename rule: loop_body_cases) simp_all


lemma try_entry_fails_independent:
  "fst (try_entry epub_file filename out) = Inl e
   \<Longrightarrow> try_entry epub_file filename out' = (Inl e, out')"
  by (cases epub_file filename rule: loop_body_cases) (simp_all add: try_entry_read_ok)

lemma loop_body_same_member:
  "open_member a filename = open_member b filename
   \<Longrightarrow> loop_body a filename out = loop_body b filename out"
  by (simp add: loop_body_def try_entry_def)

text \<open>
  The loop prints the lines of each entry in turn and never raises.
\<close>

lemma for_filename_appends:
  "for_filename epub_file names out =
     (Inr (), out @ concat (map (\<lambda>filename. snd (loop_body epub_file filename [])) names))"
proof (induction names arbitrary: out)
  case Nil
  then show ?case by simp
next
  case (Cons filename names)
  show ?case
    by (subst for_filename.simps, subst loop_body_appends) (simp add: Cons.IH)
qed

lemma explore_epub_archive:
  "ZipFile w epub_filepath = Inr epub_file
   \<Longrightarrow> explore_epub w epub_filepath out = for_filename epub_file (namelist epub_file) out"
  by (simp add: explore_epub_def for_filename_appends)


lemma sublist_concat_map:
  "x \<in> set xs \<Longrightarrow> sublist (f x) (concat (map f xs))"
proof -
  assume "x \<in> set xs"
  then obtain ps ss where "xs = ps @ x # ss" by (auto simp: in_set_conv_decomp)
  then show ?thesis by simp
qed

text \<open>
  Of the lines printed for one entry, exactly one names it.
\<close>

lemma loop_body_entry_line:
  "\<exists>line. filter entry_line (snd (loop_body epub_file filename [])) = [line]
          \<and> names_entry filename line"
proof (cases epub_file filename rule: loop_body_cases)
  case (failed e)
  have "entry_line (lit ''Error reading '' @ quoted filename @ lit '': '' @ str_exn e)"
    by (simp add: entry_line_def)
  moreover have
    "names_entry filename (lit ''Error reading '' @ quoted filename @ lit '': '' @ str_exn e)"
    by (simp add: names_entry_def)
  ultimately show ?thesis using failed(2) [of "[]"] by simp
next
  case (shown zf raw content)
  have "entry_line (lit ''Filename: '' @ filename)"
    by (simp add: entry_line_def)
  moreover have "\<not> entry_line (lit ''Content (first 100 chars): '' @ take 100 content)"
    and "\<not> entry_line (lit ''Content: '' @ content)"
    and "\<not> entry_line (lit ''--------------------'')"
    by (simp_all add: entry_line_def lit_def)
  moreover have "names_entry filename (lit ''Filename: '' @ filename)"
    by (simp add: names_entry_def)
  ultimately show ?thesis using shown(4) [of "[]"] by simp
qed

lemma list_all2_filter_concat:
  "(\<And>x. \<exists>y. filter P (f x) = [y] \<and> R x y)
   \<Longrightarrow> list_all2 R xs (filter P (concat (map f xs)))"
proof (induction xs)
  case Nil
  then show ?case by simp
next
  case (Cons x xs)
  obtain y where "filter P (f x) = [y]" and "R x y"
    using Cons.prems by blast
  moreover have "list_all2 R xs (filter P (concat (map f xs)))"
    using Cons.IH Cons.prems by blast
  ultimately show ?case by simp
qed

text \<open>
  The output for the archive with the damaged entry.
\<close>

lemma damaged_archive_output:
  "explore_epub example_world (lit ''damaged.epub'') [] =
     (Inr (), [lit ''Filename: a.txt'', lit ''Content: hi'', lit ''--------------------'',
               lit ''Error reading 'bad.bin': Bad CRC-32'',
               lit ''Filename: c.txt'', lit ''Content: ok'', lit ''--------------------''])"
proof -
  have zip: "ZipFile example_world (lit ''damaged.epub'') = Inr damaged_archive"
    by (simp add: example_world_def lit_def)
  have a: "loop_body damaged_archive (lit ''a.txt'') out =
      (Inr (), out @ [lit ''Filename: a.txt'', lit ''Content: hi'', lit ''--------------------''])"
    for out
    using try_entry_read_ok [of damaged_archive "lit ''a.txt''" "ZipExtFile (Inr [0x68, 0x69])"
        "[0x68, 0x69]" "lit ''hi''" out] decode_hi
    by (simp add: loop_body_def damaged_archive_def lit_def)
  have b: "loop_body damaged_archive (lit ''bad.bin'') out =
      (Inr (), out @ [lit ''Error reading 'bad.bin': Bad CRC-32''])" for out
    using try_entry_read_fails [of damaged_archive "lit ''bad.bin''"
        "ZipExtFile (Inl (BadZipFile (lit ''Bad CRC-32'')))" "BadZipFile (lit ''Bad CRC-32'')" out]
    by (simp add: loop_body_def damaged_archive_def lit_def print_def quoted_def apos_def)
  have c: "loop_body damaged_archive (lit ''c.txt'') out =
      (Inr (), out @ [lit ''Filename: c.txt'', lit ''Content: ok'', lit ''--------------------''])"
    for out
    using try_entry_read_ok [of damaged_archive "lit ''c.txt''" "ZipExtFile (Inr [0x6F, 0x6B])"
        "[0x6F, 0x6B]" "lit ''ok''" out] decode_ok
    by (simp add: loop_body_def damaged_archive_def lit_def)
  have "namelist damaged_archive = [lit ''a.txt'', lit ''bad.bin'', lit ''c.txt'']"
    by (simp add: damaged_archive_def)
  then show ?thesis
    by (simp add: explore_epub_archive [OF zip] a b c)
qed

section \<open>The claims\<close>

subsection \<open>C1: undecodable bytes\<close>

text \<open>
  Claim C1, as amended. For every archive entry whose bytes are successfully read,
  decoding to UTF-8 never fails: any byte sequence that cannot be decoded is dropped from
  the text, nothing being printed in its place, rather than raising or aborting the scan.
  The decoded text is the strict decoding of the bytes that are left when the undecodable
  sequences are deleted, and the body of the \<open>try\<close> ends normally after printing the
  three lines of the entry.
\<close>

theorem undecodable_bytes_are_dropped:
  assumes "open_member epub_file filename = Inr zf" and "read zf = Inr raw"
  shows "\<exists>content.
           decode raw Ignore = Inr content \<and>
           decode (strip_undecodable raw) Strict = Inr content \<and>
           subseq (strip_undecodable raw) raw \<and>
           try_entry epub_file filename out =
             (Inr (), out @ [lit ''Filename: '' @ filename,
                             if length content > 100
                             then lit ''Content (first 100 chars): '' @ take 100 content
                             else lit ''Content: '' @ content,
                             lit ''--------------------''])"
proof -
  obtain content where content: "decode raw Ignore = Inr content"
    using decode_ignore_total by blast
  then have "decode (strip_undecodable raw) Strict = Inr content"
    by (simp add: decode_strict_strip)
  moreover note content subseq_strip_undecodable [of raw]
    try_entry_read_ok [OF assms content, of out]
  ultimately show ?thesis by blast
qed

text \<open>
  The theorem at the entry holding the bytes \<open>61 FF 62\<close>: the text is \<open>ab\<close>.
\<close>

theorem undecodable_bytes_are_dropped_witness:
  "decode [0x61, 0xFF, 0x62] Ignore = Inr (lit ''ab'') \<and>
   decode (strip_undecodable [0x61, 0xFF, 0x62]) Strict = Inr (lit ''ab'') \<and>
   try_entry latin1_archive (lit ''a'') [] =
     (Inr (), [lit ''Filename: a'', lit ''Content: ab'', lit ''--------------------''])"
proof -
  have raw: "decode [0x61, 0xFF, 0x62] Ignore = Inr (lit ''ab'')"
    by (simp add: decode_def utf8_decode_def invalid_start_def unat_ucs4 lit_def)
  have "open_member latin1_archive (lit ''a'') = Inr (ZipExtFile (Inr [0x61, 0xFF, 0x62]))"
    by (simp add: latin1_archive_def)
  from undecodable_bytes_are_dropped [OF this, of "[0x61, 0xFF, 0x62]" "[]"] raw
  show ?thesis by (simp add: lit_def)
qed

text \<open>
  Claim C1 as stated says that undecodable bytes are replaced with a replacement
  character in the printed text. The program decodes with \<open>errors='ignore'\<close>: for the
  bytes \<open>61 FF 62\<close> the handler \<open>replace\<close> would give \<open>a\<close>, U+FFFD, \<open>b\<close>, and the
  program prints \<open>ab\<close>, with no U+FFFD anywhere in its output.
\<close>

theorem replacement_character_counterexample:
  "decode [0x61, 0xFF, 0x62] Replace = Inr [0x61, 0xFFFD, 0x62] \<and>
   explore_epub example_world (lit ''latin1.epub'') [] =
     (Inr (), [lit ''Filename: a'', lit ''Content: ab'', lit ''--------------------'']) \<and>
   0xFFFD \<notin> set (concat (snd (explore_epub example_world (lit ''latin1.epub'') [])))"
proof -
  have "decode [0x61, 0xFF, 0x62] Replace = Inr [0x61, 0xFFFD, 0x62]"
    by (simp add: decode_def utf8_decode_def invalid_start_def unat_ucs4)
  moreover have "decode [0x61, 0xFF, 0x62] Ignore = Inr (lit ''ab'')"
    by (simp add: decode_def utf8_decode_def invalid_start_def unat_ucs4 lit_def)
  then have "try_entry latin1_archive (lit ''a'') [] =
      (Inr (), [lit ''Filename: a'', lit ''Content: ab'', lit ''--------------------''])"
    by (simp add: try_entry_read_ok [where raw = "[0x61, 0xFF, 0x62]"] latin1_archive_def lit_def)
  then have "explore_epub example_world (lit ''latin1.epub'') [] =
      (Inr (), [lit ''Filename: a'', lit ''Content: ab'', lit ''--------------------''])"
    by (simp add: explore_epub_def example_world_def latin1_archive_def loop_body_def lit_def)
  ultimately show ?thesis by (simp add: lit_def)
qed

subsection \<open>C2: the lines of a readable entry\<close>

text \<open>
  Claim C2. For every successfully read entry the output is the line
  \<open>Filename: <name>\<close>; then, if the decoded text is longer than 100 characters, the line
  \<open>Content (first 100 chars): \<close> followed by exactly its first 100 characters, otherwise
  the line \<open>Content: \<close> followed by the whole text; then a line of exactly 20 dashes.
\<close>

theorem entry_output_format:
  assumes "open_member epub_file filename = Inr zf" and "read zf = Inr raw"
  shows "\<exists>content. decode raw Ignore = Inr content \<and>
           loop_body epub_file filename out =
             (Inr (), out @ [lit ''Filename: '' @ filename,
                             if length content > 100
                             then lit ''Content (first 100 chars): '' @ take 100 content
                             else lit ''Content: '' @ content,
                             replicate 20 (of_char CHR ''-'')]) \<and>
           (if length content > 100 then length (take 100 content) = 100
            else take 100 content = content)"
proof -
  obtain content where c: "decode raw Ignore = Inr content"
    using decode_ignore_total by blast
  with assms show ?thesis
    by (simp add: loop_body_def try_entry_read_ok dashes)
qed

text \<open>
  The theorem at the entry \<open>b.html\<close> of the specification's example, 150 times \<open>x\<close>.
\<close>

theorem entry_output_format_witness:
  "loop_body example_archive (lit ''b.html'') [] =
     (Inr (), [lit ''Filename: b.html'',
               lit ''Content (first 100 chars): '' @ replicate 100 (of_char CHR ''x''),
               lit ''--------------------''])"
proof -
  have raw: "decode (replicate 150 (0x78 :: 8 word)) Ignore = Inr (replicate 150 120)"
    by (simp add: decode_ascii)
  have "open_member example_archive (lit ''b.html'') = Inr (ZipExtFile (Inr (replicate 150 0x78)))"
    by (simp add: example_archive_def lit_def)
  from entry_output_format [OF this, of "replicate 150 0x78" "[]"] raw
  show ?thesis
    by (simp add: lit_def eval_nat_numeral)
qed

subsection \<open>C3: a bad entry does not abort the scan\<close>

text \<open>
  Claim C3. If the body of the \<open>try\<close> fails for an entry (opening, reading or decoding
  raises \<open>e\<close>), the explorer prints \<open>Error reading '<name>': <cause>\<close> for it and goes on:
  the output is what the entries before it print, then that line, then what the remaining
  entries print, and every remaining entry that can be read has its three lines there.
\<close>

theorem bad_entry_does_not_abort_scan:
  assumes "ZipFile w epub_filepath = Inr epub_file"
    and "namelist epub_file = before @ filename # remaining"
    and "fst (try_entry epub_file filename []) = Inl e"
  shows "\<exists>printed_before printed_after.
           explore_epub w epub_filepath out =
             (Inr (), out @ printed_before
                      @ [lit ''Error reading '' @ quoted filename @ lit '': '' @ str_exn e]
                      @ printed_after) \<and>
           for_filename epub_file before out = (Inr (), out @ printed_before) \<and>
           for_filename epub_file remaining [] = (Inr (), printed_after) \<and>
           (\<forall>name\<in>set remaining. \<forall>zf raw.
              open_member epub_file name = Inr zf \<and> read zf = Inr raw \<longrightarrow>
              (\<exists>content. decode raw Ignore = Inr content \<and>
                 sublist [lit ''Filename: '' @ name,
                          if length content > 100
                          then lit ''Content (first 100 chars): '' @ take 100 content
                          else lit ''Content: '' @ content,
                          lit ''--------------------''] printed_after))"
proof -
  let ?lines = "\<lambda>name. snd (loop_body epub_file name [])"
  have bad: "loop_body epub_file filename out' =
      (Inr (), out' @ [lit ''Error reading '' @ quoted filename @ lit '': '' @ str_exn e])"
    for out'
    using try_entry_fails_independent [OF assms(3), of out']
    by (simp add: loop_body_def print_def)
  have shown: "\<exists>content. decode raw Ignore = Inr content \<and>
                 sublist [lit ''Filename: '' @ name,
                          if length content > 100
                          then lit ''Content (first 100 chars): '' @ take 100 content
                          else lit ''Content: '' @ content,
                          lit ''--------------------''] (concat (map ?lines remaining))"
    if "name \<in> set remaining" and "open_member epub_file name = Inr zf" and "read zf = Inr raw"
    for name zf raw
  proof -
    obtain content where content: "decode raw Ignore = Inr content"
      using decode_ignore_total by blast
    have "?lines name = [lit ''Filename: '' @ name,
                          if length content > 100
                          then lit ''Content (first 100 chars): '' @ take 100 content
                          else lit ''Content: '' @ content,
                          lit ''--------------------'']"
      using that(2,3) content by (simp add: loop_body_def try_entry_read_ok)
    with sublist_concat_map [OF that(1), of ?lines] content show ?thesis by auto
  qed
  have "explore_epub w epub_filepath out =
          (Inr (), out @ concat (map ?lines before)
                   @ [lit ''Error reading '' @ quoted filename @ lit '': '' @ str_exn e]
                   @ concat (map ?lines remaining))"
    using assms(1,2) bad [of "[]"] by (simp add: explore_epub_archive for_filename_appends)
  moreover have "for_filename epub_file before out = (Inr (), out @ concat (map ?lines before))"
    by (rule for_filename_appends)
  moreover have "for_filename epub_file remaining [] = (Inr (), concat (map ?lines remaining))"
    by (simp add: for_filename_appends)
  ultimately show ?thesis using shown by blast
qed

text \<open>
  The theorem at the archive whose second of three entries fails its CRC check.
\<close>

theorem bad_entry_does_not_abort_scan_witness:
  "\<exists>printed_before printed_after.
     explore_epub example_world (lit ''damaged.epub'') [] =
       (Inr (), printed_before @ [lit ''Error reading 'bad.bin': Bad CRC-32''] @ printed_after) \<and>
     for_filename damaged_archive [lit ''a.txt''] [] = (Inr (), printed_before) \<and>
     for_filename damaged_archive [lit ''c.txt''] [] = (Inr (), printed_after) \<and>
     sublist [lit ''Filename: c.txt'', lit ''Content: ok'', lit ''--------------------'']
       printed_after"
proof -
  have zip: "ZipFile example_world (lit ''damaged.epub'') = Inr damaged_archive"
    by (simp add: example_world_def lit_def)
  have names: "namelist damaged_archive = [lit ''a.txt''] @ lit ''bad.bin'' # [lit ''c.txt'']"
    by (simp add: damaged_archive_def)
  have bad: "fst (try_entry damaged_archive (lit ''bad.bin'') []) = Inl (BadZipFile (lit ''Bad CRC-32''))"
    by (simp add: try_entry_def damaged_archive_def lit_def)
  have c: "open_member damaged_archive (lit ''c.txt'') = Inr (ZipExtFile (Inr [0x6F, 0x6B]))
           \<and> read (ZipExtFile (Inr [0x6F, 0x6B])) = Inr [0x6F, 0x6B]"
    by (simp add: damaged_archive_def lit_def)
  obtain printed_before printed_after where
    out: "explore_epub example_world (lit ''damaged.epub'') [] =
            (Inr (), [] @ printed_before
               @ [lit ''Error reading '' @ quoted (lit ''bad.bin'') @ lit '': ''
                  @ str_exn (BadZipFile (lit ''Bad CRC-32''))]
               @ printed_after)"
    and before: "for_filename damaged_archive [lit ''a.txt''] [] = (Inr (), [] @ printed_before)"
    and after: "for_filename damaged_archive [lit ''c.txt''] [] = (Inr (), printed_after)"
    and shown: "\<forall>name\<in>set [lit ''c.txt'']. \<forall>zf raw.
              open_member damaged_archive name = Inr zf \<and> read zf = Inr raw \<longrightarrow>
              (\<exists>content. decode raw Ignore = Inr content \<and>
                 sublist [lit ''Filename: '' @ name,
                          if length content > 100
                          then lit ''Content (first 100 chars): '' @ take 100 content
                          else lit ''Content: '' @ content,
                          lit ''--------------------''] printed_after)"
    using bad_entry_does_not_abort_scan [OF zip names bad, of "[]"] by blast
  from shown c obtain content where
    "decode [0x6F, 0x6B] Ignore = Inr content"
    "sublist [lit ''Filename: '' @ lit ''c.txt'',
              if length content > 100
              then lit ''Content (first 100 chars): '' @ take 100 content
              else lit ''Content: '' @ content,
              lit ''--------------------''] printed_after"
    by auto
  with decode_ok have
    "sublist [lit ''Filename: c.txt'', lit ''Content: ok'', lit ''--------------------'']
       printed_after"
    by (simp add: lit_def)
  moreover have "lit ''Error reading '' @ quoted (lit ''bad.bin'') @ lit '': ''
                  @ str_exn (BadZipFile (lit ''Bad CRC-32''))
                 = lit ''Error reading 'bad.bin': Bad CRC-32''"
    by (simp add: lit_def quoted_def apos_def)
  ultimately show ?thesis using out before after by auto
qed

subsection \<open>C4: normal return\<close>


subsection \<open>C5: file not found\<close>



subsection \<open>C6: not an archive\<close>



subsection \<open>C7: archive order\<close>

text \<open>
  Claim C7. For every valid archive the entries are processed one after another in the
  order of \<open>namelist()\<close>: the lines of the output that name an entry (\<open>Filename\<close> lines
  and \<open>Error reading\<close> lines) are as many as the names, and the i-th of them names the
  i-th name.
\<close>

theorem entries_in_archive_order:
  assumes "ZipFile w epub_filepath = Inr epub_file"
  shows "list_all2 names_entry (namelist epub_file)
           (filter entry_line (snd (explore_epub w epub_filepath [])))"
proof -
  have "snd (explore_epub w epub_filepath []) =
          concat (map (\<lambda>filename. snd (loop_body epub_file filename [])) (namelist epub_file))"
    using assms by (simp add: explore_epub_archive for_filename_appends)
  moreover have "list_all2 names_entry (namelist epub_file)
      (filter entry_line
         (concat (map (\<lambda>filename. snd (loop_body epub_file filename [])) (namelist epub_file))))"
    by (rule list_all2_filter_concat) (rule loop_body_entry_line)
  ultimately show ?thesis by simp
qed

text \<open>
  The theorem at the archive with the damaged entry.
\<close>

theorem entries_in_archive_order_witness:
  "list_all2 names_entry [lit ''a.txt'', lit ''bad.bin'', lit ''c.txt'']
     (filter entry_line (snd (explore_epub example_world (lit ''damaged.epub'') []))) \<and>
   filter entry_line (snd (explore_epub example_world (lit ''damaged.epub'') [])) =
     [lit ''Filename: a.txt'', lit ''Error reading 'bad.bin': Bad CRC-32'', lit ''Filename: c.txt'']"
proof -
  have zip: "ZipFile example_world (lit ''damaged.epub'') = Inr damaged_archive"
    by (simp add: example_world_def lit_def)
  have "filter entry_line (snd (explore_epub example_world (lit ''damaged.epub'') [])) =
     [lit ''Filename: a.txt'', lit ''Error reading 'bad.bin': Bad CRC-32'', lit ''Filename: c.txt'']"
    unfolding damaged_archive_output by (simp add: entry_line_def lit_def)
  with entries_in_archive_order [OF zip] show ?thesis
    by (simp add: damaged_archive_def)
qed

subsection \<open>C8: determinism\<close>

text \<open>
  Claim C8. \<open>explore_epub\<close> is deterministic: two invocations on the same path for which
  \<open>zipfile.ZipFile\<close> gives the same answer (the same exception, or archives with the same
  names and the same outcome for each listed name) print the same text, whatever else
  differs in the file system and whatever was printed before.
\<close>

theorem explore_epub_deterministic:
  assumes "same_answer (ZipFile w epub_filepath) (ZipFile w' epub_filepath)"
  shows "\<exists>printed. (\<forall>out. explore_epub w epub_filepath out = (Inr (), out @ printed)) \<and>
                   (\<forall>out. explore_epub w' epub_filepath out = (Inr (), out @ printed))"
proof (cases "ZipFile w epub_filepath")
  case (Inl e)
  with assms have "ZipFile w' epub_filepath = Inl e"
    by (cases "ZipFile w' epub_filepath") simp_all
  with Inl show ?thesis
    by (cases e) (simp_all add: explore_epub_def print_def)
next
  case a: (Inr a)
  with assms obtain b where b: "ZipFile w' epub_filepath = Inr b" and same: "same_contents a b"
    by (cases "ZipFile w' epub_filepath") simp_all
  have names: "namelist b = namelist a"
    using same by (simp add: same_contents_def)
  have "loop_body a filename [] = loop_body b filename []"
    if "filename \<in> set (namelist a)" for filename
  proof (rule loop_body_same_member)
    show "open_member a filename = open_member b filename"
      using same that by (simp add: same_contents_def)
  qed
  then have "map (\<lambda>filename. snd (loop_body a filename [])) (namelist a)
        = map (\<lambda>filename. snd (loop_body b filename [])) (namelist b)"
    unfolding names by (intro map_cong refl) simp
  then show ?thesis
    using a b by (simp add: explore_epub_archive for_filename_appends)
qed

text \<open>
  The theorem at two invocations in a row on the archive with the damaged entry.
\<close>

theorem explore_epub_deterministic_witness:
  "\<exists>printed. explore_epub example_world (lit ''damaged.epub'') [] = (Inr (), printed) \<and>
             explore_epub example_world (lit ''damaged.epub'') printed = (Inr (), printed @ printed)"
proof -
  have zip: "ZipFile example_world (lit ''damaged.epub'') = Inr damaged_archive"
    by (simp add: example_world_def lit_def)
  have "same_answer (ZipFile example_world (lit ''damaged.epub''))
                    (ZipFile example_world (lit ''damaged.epub''))"
    by (simp add: zip same_contents_def)
  from explore_epub_deterministic [OF this] obtain printed where
    "\<forall>out. explore_epub example_world (lit ''damaged.epub'') out = (Inr (), out @ printed)"
    by blast
  then have "explore_epub example_world (lit ''damaged.epub'') [] = (Inr (), printed)"
    and "explore_epub example_world (lit ''damaged.epub'') printed = (Inr (), printed @ printed)"
    by simp_all
  then show ?thesis by blast
qed

subsection \<open>C9: the script\<close>

text \<open>
  Claim C9. Run as a program: if \<open>file.epub\<close> does not exist, the program prints exactly
  the message below and does not call the explorer (the result does not depend on what
  \<open>zipfile.ZipFile\<close> would answer); if it exists, the program is the explorer on exactly
  that path.
\<close>

theorem main_checks_existence:
  "main (w\<lparr>ZipFile := z\<rparr>) out =
     (if path_exists w (lit ''file.epub'')
      then explore_epub (w\<lparr>ZipFile := z\<rparr>) (lit ''file.epub'') out
      else (Inr (), out @ [lit ''Error: 'file.epub' does not exist. Please ensure this file is in the same directory or replace with the correct filepath.'']))"
  by (simp add: main_def print_def lit_def quoted_def apos_def)

subsection \<open>C10: a failed entry prints one line\<close>

text \<open>
  Claim C10. For every entry whose \<open>open\<close> or \<open>read\<close> fails, the only output for that
  entry is the single line \<open>Error reading '<name>': <cause>\<close>; it is neither a
  \<open>Filename:\<close> line nor the line of 20 dashes.
\<close>

theorem failed_entry_only_error_line:
  assumes "open_member epub_file filename = Inl e
           \<or> (\<exists>zf. open_member epub_file filename = Inr zf \<and> read zf = Inl e)"
  shows "\<exists>line. loop_body epub_file filename out = (Inr (), out @ [line]) \<and>
           line = lit ''Error reading '' @ quoted filename @ lit '': '' @ str_exn e \<and>
           \<not> prefix (lit ''Filename:'') line \<and>
           line \<noteq> replicate 20 (of_char CHR ''-'')"
proof -
  have "try_entry epub_file filename out = (Inl e, out)"
    using assms by (auto simp: try_entry_open_fails try_entry_read_fails)
  moreover have "replicate 20 (of_char CHR ''-'') = lit ''--------------------''"
    by (simp add: lit_def eval_nat_numeral)
  ultimately show ?thesis
    by (simp add: loop_body_def print_def lit_def)
qed

text \<open>
  The theorem at the damaged entry.
\<close>

theorem failed_entry_only_error_line_witness:
  "loop_body damaged_archive (lit ''bad.bin'') [] =
     (Inr (), [lit ''Error reading 'bad.bin': Bad CRC-32''])"
proof -
  have "open_member damaged_archive (lit ''bad.bin'') = Inl (BadZipFile (lit ''Bad CRC-32''))
        \<or> (\<exists>zf. open_member damaged_archive (lit ''bad.bin'') = Inr zf
                \<and> read zf = Inl (BadZipFile (lit ''Bad CRC-32'')))"
    by (simp add: damaged_archive_def lit_def)
  from failed_entry_only_error_line [OF this, of "[]"] obtain line where
    "loop_body damaged_archive (lit ''bad.bin'') [] = (Inr (), [] @ [line])"
    and "line = lit ''Error reading '' @ quoted (lit ''bad.bin'') @ lit '': ''
                @ str_exn (BadZipFile (lit ''Bad CRC-32''))"
    by blast
  then show ?thesis
    by (simp add: lit_def quoted_def apos_def)
qed

end
